theory Spec2Isabelle
  imports Complex_Main "HOL-Library.Multiset"
begin

text \<open>
  A shallow embedding of the functional-programming toolkit: the comparer capability
  objects (\<^verbatim>\<open>EqualityComparer\<close>, \<^verbatim>\<open>OrderingComparer\<close>) and the modules that consume them
  (\<^verbatim>\<open>Nullable\<close>, \<^verbatim>\<open>NonEmptyArray\<close>, \<^verbatim>\<open>Deferred\<close>). Functions passed as arguments
  (predicates, comparison functions, mapping functions) are pure HOL functions.
\<close>

section \<open>EqualityComparer\<close>

text \<open>
  \<^verbatim>\<open>EqualityComparer<A>\<close> is an object with the single operation \<^verbatim>\<open>equals(a, b)\<close>.
  Modelled from the spec: the module \<^verbatim>\<open>EqualityComparer\<close> (the interface, \<^verbatim>\<open>ofEquals\<close>,
  \<^verbatim>\<open>Number\<close>, \<^verbatim>\<open>String\<close>) is imported by the sources but is not among them. The spec
  describes the type as an "immutable value object holding one operation,
  equals(a: A, b: A) -> bool", and \<^verbatim>\<open>ofEquals(fn)\<close> as wrapping "an arbitrary binary
  predicate as the equality operation" with no validation.
\<close>

record 'a EqualityComparer =
  equals :: "'a \<Rightarrow> 'a \<Rightarrow> bool"

definition ofEquals :: "('a \<Rightarrow> 'a \<Rightarrow> bool) \<Rightarrow> 'a EqualityComparer" where
  "ofEquals f = \<lparr> equals = f \<rparr>"

text \<open>
  Modelled from the spec: the canonical instances for primitives use "value equality for
  primitives such as numbers and strings".
\<close>

definition EqualityComparer_Number :: "int EqualityComparer" where
  "EqualityComparer_Number = ofEquals (\<lambda>a b. a = b)"

definition EqualityComparer_String :: "string EqualityComparer" where
  "EqualityComparer_String = ofEquals (\<lambda>a b. a = b)"



section \<open>Nullable\<close>

text \<open>
  \<^verbatim>\<open>type Nullable<A extends NonNullish> = A | null | undefined\<close>: a value is one of the
  two nullish values of the host language or a non-nullish \<open>A\<close>. The test \<^verbatim>\<open>x == null\<close>
  (loose equality) holds exactly for \<^verbatim>\<open>null\<close> and \<^verbatim>\<open>undefined\<close>.
\<close>

datatype 'a Nullable = Null | Undefined | NonNullish 'a

fun isNullish :: "'a Nullable \<Rightarrow> bool" where
  "isNullish Null = True"
| "isNullish Undefined = True"
| "isNullish (NonNullish a) = False"

text \<open>
  \<^verbatim>\<open>
  export const getEqualityComparer = <A extends NonNullish>(
      equalityComparer: EqualityComparer<A>
  ) =>
      EqualityComparer.ofEquals<Nullable<A>>(
          (a1, a2) =>
              (a1 == null && a2 == null) ||
              (a1 != null && a2 != null && equalityComparer.equals(a1, a2))
      )
  \<close>
  The third conjunct of the second disjunct is only reached with two non-nullish values,
  so the pattern match below reads their payloads exactly where the source passes them on.
\<close>

fun Nullable_equals :: "'a EqualityComparer \<Rightarrow> 'a Nullable \<Rightarrow> 'a Nullable \<Rightarrow> bool" where
  "Nullable_equals equalityComparer a1 a2 =
     ((isNullish a1 \<and> isNullish a2) \<or>
      (\<not> isNullish a1 \<and> \<not> isNullish a2 \<and>
        (case (a1, a2) of
           (NonNullish x, NonNullish y) \<Rightarrow> equals equalityComparer x y
         | _ \<Rightarrow> False)))"

definition Nullable_getEqualityComparer ::
  "'a EqualityComparer \<Rightarrow> 'a Nullable EqualityComparer" where
  "Nullable_getEqualityComparer equalityComparer =
     ofEquals (\<lambda>a1 a2. Nullable_equals equalityComparer a1 a2)"


text \<open>
  \<^verbatim>\<open>
  export const map = (f: (a: A) => B) => (nullable: Nullable<A>): Nullable<B> =>
      nullable != null ? f(nullable) : nullable
  export const bind = (f: (a: A) => Nullable<B>) => (nullable: Nullable<A>): Nullable<B> =>
      nullable != null ? f(nullable) : nullable
  \<close>
  In the else branch the source returns \<^verbatim>\<open>nullable\<close> itself, which is then one of the two
  nullish values: \<open>Null\<close> is returned for \<open>Null\<close> and \<open>Undefined\<close> for \<open>Undefined\<close>.
\<close>

definition Nullable_map :: "('a \<Rightarrow> 'b) \<Rightarrow> 'a Nullable \<Rightarrow> 'b Nullable" where
  "Nullable_map f nullable =
     (case nullable of
        NonNullish a \<Rightarrow> NonNullish (f a)
      | Null \<Rightarrow> Null
      | Undefined \<Rightarrow> Undefined)"

definition Nullable_bind :: "('a \<Rightarrow> 'b Nullable) \<Rightarrow> 'a Nullable \<Rightarrow> 'b Nullable" where
  "Nullable_bind f nullable =
     (case nullable of
        NonNullish a \<Rightarrow> f a
      | Null \<Rightarrow> Null
      | Undefined \<Rightarrow> Undefined)"

text \<open>
  The same two functions with the calls of \<open>f\<close> made observable: the second component
  is the list of arguments \<open>f\<close> was invoked on during the call, in order.
\<close>

definition Nullable_map_calls :: "('a \<Rightarrow> 'b) \<Rightarrow> 'a Nullable \<Rightarrow> 'b Nullable \<times> 'a list" where
  "Nullable_map_calls f nullable =
     (case nullable of
        NonNullish a \<Rightarrow> (NonNullish (f a), [a])
      | Null \<Rightarrow> (Null, [])
      | Undefined \<Rightarrow> (Undefined, []))"

definition Nullable_bind_calls ::
  "('a \<Rightarrow> 'b Nullable) \<Rightarrow> 'a Nullable \<Rightarrow> 'b Nullable \<times> 'a list" where
  "Nullable_bind_calls f nullable =
     (case nullable of
        NonNullish a \<Rightarrow> (f a, [a])
      | Null \<Rightarrow> (Null, [])
      | Undefined \<Rightarrow> (Undefined, []))"


section \<open>OrderingComparer\<close>

text \<open>
  Modelled from the spec: the module \<^verbatim>\<open>OrderingComparer\<close> (the interface, \<^verbatim>\<open>ofCompare\<close>,
  \<^verbatim>\<open>Number\<close>, \<^verbatim>\<open>String\<close>, \<^verbatim>\<open>reverse\<close>, \<^verbatim>\<open>deriveFrom\<close>, \<^verbatim>\<open>getComposite\<close>) is imported
  and tested by the sources but is not among them. The spec describes the type as an
  "immutable value object holding one operation, compare(a: A, b: A) -> {-1, 0, 1}" of
  which only the sign is significant, and \<^verbatim>\<open>ofCompare(fn)\<close> as wrapping "a raw three-way
  function". The result is an \<open>int\<close> here, so the laws below speak of its sign.
\<close>

record 'a OrderingComparer =
  compare :: "'a \<Rightarrow> 'a \<Rightarrow> int"

definition ofCompare :: "('a \<Rightarrow> 'a \<Rightarrow> int) \<Rightarrow> 'a OrderingComparer" where
  "ofCompare f = \<lparr> compare = f \<rparr>"

text \<open>
  Modelled from the spec: the canonical base instances are "numeric ascending,
  lexicographic string ascending", "each a trivial wrapper around the primitive's native
  ordering". Strings are compared character code by character code, a proper prefix
  coming first. The numbers the examples sort are integers, and the numeric instances
  are stated on \<open>int\<close>.
\<close>

definition OrderingComparer_Number :: "int OrderingComparer" where
  "OrderingComparer_Number =
     ofCompare (\<lambda>a b. if a = b then 0 else if a < b then - 1 else 1)"

fun String_compare :: "string \<Rightarrow> string \<Rightarrow> int" where
  "String_compare [] [] = 0"
| "String_compare [] (y # ys) = - 1"
| "String_compare (x # xs) [] = 1"
| "String_compare (x # xs) (y # ys) =
     (if (of_char x :: nat) < of_char y then - 1
      else if (of_char y :: nat) < of_char x then 1
      else String_compare xs ys)"

definition OrderingComparer_String :: "string OrderingComparer" where
  "OrderingComparer_String = ofCompare String_compare"

text \<open>
  Modelled from the spec: "reverse(oc): returns a new comparer with
  compare(a,b) = -oc.compare(a,b)".
\<close>

definition OrderingComparer_reverse :: "'a OrderingComparer \<Rightarrow> 'a OrderingComparer" where
  "OrderingComparer_reverse oc = ofCompare (\<lambda>a b. - compare oc a b)"

text \<open>
  Modelled from the spec: "deriveFrom(innerComparer, keyFn): builds a comparer over an
  outer type by projecting each value through keyFn and delegating to innerComparer on
  the projected keys".
\<close>

definition deriveFrom :: "'k OrderingComparer \<Rightarrow> ('a \<Rightarrow> 'k) \<Rightarrow> 'a OrderingComparer" where
  "deriveFrom innerComparer keyFn =
     ofCompare (\<lambda>a b. compare innerComparer (keyFn a) (keyFn b))"

text \<open>
  Modelled from the spec: "getComposite(c1, c2, ..., cN): ... Evaluate c1.compare(a,b);
  if nonzero, return it; otherwise evaluate c2, and so on; if all N comparers return
  zero, the composite returns zero". The argument list is a list of comparers.
\<close>

fun getComposite_compare :: "'a OrderingComparer list \<Rightarrow> 'a \<Rightarrow> 'a \<Rightarrow> int" where
  "getComposite_compare [] a b = 0"
| "getComposite_compare (c # cs) a b =
     (let r = compare c a b in if r \<noteq> 0 then r else getComposite_compare cs a b)"

definition getComposite :: "'a OrderingComparer list \<Rightarrow> 'a OrderingComparer" where
  "getComposite comparers = ofCompare (getComposite_compare comparers)"

text \<open>
  The three laws the spec lists as the invariants of an \<^verbatim>\<open>OrderingComparer\<close>:
  \<open>compare(x,x) == 0\<close>, antisymmetry of the sign, and transitivity of the induced order,
  the order being the spec's \<^verbatim>\<open>leq(a,b) = compare(a,b) <= 0\<close>.
\<close>

definition compare_refl :: "'a OrderingComparer \<Rightarrow> bool" where
  "compare_refl oc \<longleftrightarrow> (\<forall>x. compare oc x x = 0)"

definition compare_antisym :: "'a OrderingComparer \<Rightarrow> bool" where
  "compare_antisym oc \<longleftrightarrow> (\<forall>a b. sgn (compare oc a b) = - sgn (compare oc b a))"

definition compare_trans :: "'a OrderingComparer \<Rightarrow> bool" where
  "compare_trans oc \<longleftrightarrow>
     (\<forall>a b c. compare oc a b \<le> 0 \<and> compare oc b c \<le> 0 \<longrightarrow> compare oc a c \<le> 0)"

definition ordering_laws :: "'a OrderingComparer \<Rightarrow> bool" where
  "ordering_laws oc \<longleftrightarrow> compare_refl oc \<and> compare_antisym oc \<and> compare_trans oc"


section \<open>Host arrays\<close>

text \<open>
  The sources call three operations of the host's \<^verbatim>\<open>Array.prototype\<close>: \<^verbatim>\<open>slice\<close>, which
  returns a new array, and \<^verbatim>\<open>reverse\<close> and \<^verbatim>\<open>sort\<close>, which both rearrange the array
  they are called on and return that same array.

  For a comparison function that satisfies the laws of an ordering (a consistent
  comparator), the contents an array has after \<^verbatim>\<open>sort(compareFn)\<close> are those of a stable
  sort that reads only the sign of \<^verbatim>\<open>compareFn\<close> (a positive result puts the first
  argument after the second one); \<open>Array_sort\<close> computes them by insertion, each element
  going before the first element it does not compare greater than. For a function that
  breaks the laws the host leaves the order to its implementation, and \<open>Array_sort\<close> need
  not be the order the host produces: what is stated about sorted contents below is
  stated for lawful comparers or for the concrete lawful comparers of the examples.
\<close>

fun insertBy :: "('a \<Rightarrow> 'a \<Rightarrow> int) \<Rightarrow> 'a \<Rightarrow> 'a list \<Rightarrow> 'a list" where
  "insertBy compareFn x [] = [x]"
| "insertBy compareFn x (y # ys) =
     (if compareFn x y \<le> 0 then x # y # ys else y # insertBy compareFn x ys)"

definition Array_sort :: "('a \<Rightarrow> 'a \<Rightarrow> int) \<Rightarrow> 'a list \<Rightarrow> 'a list" where
  "Array_sort compareFn xs = foldr (insertBy compareFn) xs []"

text \<open>
  Arrays are objects with identity. A store holds the contents of every array that has
  been allocated; a reference is the position of an array in the store, and allocation
  appends to it, so a new array never shares its reference with an existing one.
\<close>

type_synonym 'a store = "'a list list"
type_synonym ref = nat

definition Array_slice :: "'a store \<Rightarrow> ref \<Rightarrow> nat \<Rightarrow> 'a store \<times> ref" where
  "Array_slice s r start = (s @ [drop start (s ! r)], length s)"

definition Array_reverse_inplace :: "'a store \<Rightarrow> ref \<Rightarrow> 'a store \<times> ref" where
  "Array_reverse_inplace s r = (s[r := rev (s ! r)], r)"

definition Array_sort_inplace :: "('a \<Rightarrow> 'a \<Rightarrow> int) \<Rightarrow> 'a store \<Rightarrow> ref \<Rightarrow> 'a store \<times> ref" where
  "Array_sort_inplace compareFn s r = (s[r := Array_sort compareFn (s ! r)], r)"


section \<open>NonEmptyArray\<close>

text \<open>
  \<^verbatim>\<open>
  export const reverse = <A>(as: NonEmptyArray<A>): NonEmptyArray<A> =>
      as.slice(0).reverse() as unknown as NonEmptyArray<A>

  export const sort =
      <A>(orderingComparer: OrderingComparer<A> = OrderingComparer.Default) =>
      (as: NonEmptyArray<A>): NonEmptyArray<A> =>
          as.slice(0).sort(orderingComparer.compare) as unknown as NonEmptyArray<A>
  \<close>
  Both take the store and the reference of \<^verbatim>\<open>as\<close> and return the new store and the
  reference of the result. The optional parameter is an \<open>option\<close>: \<open>None\<close> is a call that
  leaves the argument out (or passes \<^verbatim>\<open>undefined\<close>), and the default value is then used.
  The constant \<^verbatim>\<open>OrderingComparer.Default\<close> is not among the sources; it is the parameter
  \<open>Default\<close>.
\<close>

definition NonEmptyArray_reverse :: "'a store \<Rightarrow> ref \<Rightarrow> 'a store \<times> ref" where
  "NonEmptyArray_reverse s as =
     (let (s1, copy) = Array_slice s as 0 in Array_reverse_inplace s1 copy)"

definition NonEmptyArray_sort ::
  "'a OrderingComparer \<Rightarrow> 'a OrderingComparer option \<Rightarrow> 'a store \<Rightarrow> ref \<Rightarrow> 'a store \<times> ref" where
  "NonEmptyArray_sort Default orderingComparer s as =
     (let oc = (case orderingComparer of None \<Rightarrow> Default | Some c \<Rightarrow> c);
          (s1, copy) = Array_slice s as 0
      in Array_sort_inplace (compare oc) s1 copy)"

text \<open>
  \<^verbatim>\<open>
  export const getEqualityComparer = <A>({ equals }: EqualityComparer<A>) =>
      EqualityComparer.ofEquals((arr1, arr2) => {
          if (arr1.length !== arr2.length) { return false }
          for (let i = 0; i < arr1.length; i++) {
              if (!equals(arr1[i], arr2[i])) { return false }
          }
          return true
      })
  \<close>
  The loop is the recursive function \<open>getEqualityComparer_loop\<close> on the index \<open>i\<close>. It is
  entered only with two arrays of the same length, so both reads are in range.
\<close>

function getEqualityComparer_loop ::
  "('a \<Rightarrow> 'a \<Rightarrow> bool) \<Rightarrow> 'a list \<Rightarrow> 'a list \<Rightarrow> nat \<Rightarrow> bool" where
  "getEqualityComparer_loop equals' arr1 arr2 i =
     (if i < length arr1 then
        (if \<not> equals' (arr1 ! i) (arr2 ! i) then False
         else getEqualityComparer_loop equals' arr1 arr2 (i + 1))
      else True)"
  by pat_completeness auto
termination
  by (relation "measure (\<lambda>(equals', arr1, arr2, i). length arr1 - i)") auto

declare getEqualityComparer_loop.simps [simp del]

definition NonEmptyArray_equals :: "('a \<Rightarrow> 'a \<Rightarrow> bool) \<Rightarrow> 'a list \<Rightarrow> 'a list \<Rightarrow> bool" where
  "NonEmptyArray_equals equals' arr1 arr2 =
     (if length arr1 \<noteq> length arr2 then False
      else getEqualityComparer_loop equals' arr1 arr2 0)"

definition NonEmptyArray_getEqualityComparer ::
  "'a EqualityComparer \<Rightarrow> 'a list EqualityComparer" where
  "NonEmptyArray_getEqualityComparer equalityComparer =
     ofEquals (NonEmptyArray_equals (equals equalityComparer))"


text \<open>
  The same comparison with the calls of the element comparer made observable: the second
  component is the list of argument pairs \<^verbatim>\<open>equals\<close> was invoked on, in order.
\<close>

function getEqualityComparer_loop_calls ::
  "('a \<Rightarrow> 'a \<Rightarrow> bool) \<Rightarrow> 'a list \<Rightarrow> 'a list \<Rightarrow> nat \<Rightarrow> ('a \<times> 'a) list
    \<Rightarrow> bool \<times> ('a \<times> 'a) list" where
  "getEqualityComparer_loop_calls equals' arr1 arr2 i calls =
     (if i < length arr1 then
        (if \<not> equals' (arr1 ! i) (arr2 ! i) then (False, calls @ [(arr1 ! i, arr2 ! i)])
         else getEqualityComparer_loop_calls equals' arr1 arr2 (i + 1)
                (calls @ [(arr1 ! i, arr2 ! i)]))
      else (True, calls))"
  by pat_completeness auto
termination
  by (relation "measure (\<lambda>(equals', arr1, arr2, i, calls). length arr1 - i)") auto

declare getEqualityComparer_loop_calls.simps [simp del]

definition NonEmptyArray_equals_calls ::
  "('a \<Rightarrow> 'a \<Rightarrow> bool) \<Rightarrow> 'a list \<Rightarrow> 'a list \<Rightarrow> bool \<times> ('a \<times> 'a) list" where
  "NonEmptyArray_equals_calls equals' arr1 arr2 =
     (if length arr1 \<noteq> length arr2 then (False, [])
      else getEqualityComparer_loop_calls equals' arr1 arr2 0 [])"


text \<open>
  \<^verbatim>\<open>
  export const range = (startInclusive: number, endInclusive: number): NonEmptyArray<number> => {
      const start = Math.floor(startInclusive)
      const end = Math.floor(endInclusive)
      if (start >= end) { return [start] }
      const out: number[] = []
      for (let i = start; i <= end; i++) { out.push(i) }
      return out as unknown as NonEmptyArray<number>
  }
  \<close>
  A value of the host's type \<^verbatim>\<open>number\<close> is a finite double, \<^verbatim>\<open>NaN\<close> or one of the two
  infinities; a finite double is given by the real number it denotes. Every comparison
  with \<^verbatim>\<open>NaN\<close> is false, and \<^verbatim>\<open>Math.floor\<close> and \<^verbatim>\<open>i++\<close> leave \<^verbatim>\<open>NaN\<close> and the infinities
  as they are. \<^verbatim>\<open>Math.floor\<close> of a finite double is exact.

  The loop variable is always an integer (it starts at a floor), and \<^verbatim>\<open>i++\<close> on an integer
  double rounds \<open>i + 1\<close> to the nearest double, ties to the even significand:
  \<^item> from \<open>- 2 ^ 53\<close> up to \<open>2 ^ 53 - 1\<close> the sum is a double and the result is exact;
  \<^item> at magnitudes from \<open>2 ^ 53\<close> below \<open>2 ^ 54\<close> the doubles are the even integers, \<open>i + 1\<close>
    lies half way between \<open>i\<close> and \<open>i + 2\<close>, and the result is the one of the two that is
    a multiple of four;
  \<^item> beyond, the doubles are at least four apart and the result is \<open>i\<close> again.
\<close>

datatype number = Num real | NaN | PosInfinity | NegInfinity

fun Math_floor :: "number \<Rightarrow> number" where
  "Math_floor (Num r) = Num (of_int \<lfloor>r\<rfloor>)"
| "Math_floor NaN = NaN"
| "Math_floor PosInfinity = PosInfinity"
| "Math_floor NegInfinity = NegInfinity"

fun number_leq :: "number \<Rightarrow> number \<Rightarrow> bool" where
  "number_leq (Num a) (Num b) = (a \<le> b)"
| "number_leq NaN y = False"
| "number_leq x NaN = False"
| "number_leq NegInfinity y = True"
| "number_leq x PosInfinity = True"
| "number_leq (Num a) NegInfinity = False"
| "number_leq PosInfinity y = False"

definition number_geq :: "number \<Rightarrow> number \<Rightarrow> bool" where
  "number_geq x y = number_leq y x"

fun number_increment :: "number \<Rightarrow> number" where
  "number_increment (Num r) =
     Num (if - (2 ^ 53) \<le> \<lfloor>r\<rfloor> \<and> \<lfloor>r\<rfloor> < 2 ^ 53 then r + 1
          else if - (2 ^ 54) \<le> \<lfloor>r\<rfloor> \<and> \<lfloor>r\<rfloor> < 2 ^ 54
            then (if \<lfloor>r\<rfloor> mod 4 = 0 then r else r + 2)
          else r)"
| "number_increment NaN = NaN"
| "number_increment PosInfinity = PosInfinity"
| "number_increment NegInfinity = NegInfinity"

text \<open>
  The \<^verbatim>\<open>for\<close> loop: \<open>i\<close> is the loop variable and \<open>out\<close> the array built so far. The
  loop test need not ever fail (the bound can be infinite, and \<open>i\<close> can stop growing), so
  the loop is a partial function: \<open>None\<close> is a call that hands no array back. The host
  bounds the length of an array by \<open>2 ^ 32 - 1\<close>, which the model leaves out; the results
  stated below for runs that end are stated for arrays within that bound.
\<close>

partial_function (option) range_loop :: "number \<Rightarrow> number \<Rightarrow> number list \<Rightarrow> number list option" where
  "range_loop i end' out =
     (if number_leq i end' then range_loop (number_increment i) end' (out @ [i])
      else Some out)"

definition NonEmptyArray_range :: "number \<Rightarrow> number \<Rightarrow> number list option" where
  "NonEmptyArray_range startInclusive endInclusive =
     (let start = Math_floor startInclusive;
          end' = Math_floor endInclusive
      in if number_geq start end' then Some [start]
         else range_loop start end' [])"


section \<open>Deferred\<close>








section \<open>The example data of the test suite\<close>

text \<open>
  The records and comparers of the \<^verbatim>\<open>getComposite\<close> test:
  \<^verbatim>\<open>
  interface Cat { readonly name: string; readonly age: number; readonly livesRemaining: number }
  const byName = OrderingComparer.deriveFrom<string, Cat>(OrderingComparer.String, c => c.name)
  const byAge = OrderingComparer.deriveFrom<number, Cat>(OrderingComparer.Number, c => c.age)
  const byLivesRemainingDesc = OrderingComparer.deriveFrom<number, Cat>(
      OrderingComparer.reverse(OrderingComparer.Number), c => c.livesRemaining)
  \<close>
\<close>

record Cat =
  name :: string
  age :: int
  livesRemaining :: int

definition byName :: "Cat OrderingComparer" where
  "byName = deriveFrom OrderingComparer_String (\<lambda>c. name c)"

definition byAge :: "Cat OrderingComparer" where
  "byAge = deriveFrom OrderingComparer_Number (\<lambda>c. age c)"

definition byLivesRemainingDesc :: "Cat OrderingComparer" where
  "byLivesRemainingDesc =
     deriveFrom (OrderingComparer_reverse OrderingComparer_Number) (\<lambda>c. livesRemaining c)"

definition shuffledCats :: "Cat list" where
  "shuffledCats =
     [\<lparr> name = ''Gerald'', age = 5, livesRemaining = 9 \<rparr>,
      \<lparr> name = ''Rufus'', age = 10, livesRemaining = 3 \<rparr>,
      \<lparr> name = ''Gerald'', age = 5, livesRemaining = 7 \<rparr>,
      \<lparr> name = ''Arnold'', age = 1, livesRemaining = 9 \<rparr>,
      \<lparr> name = ''Rufus'', age = 10, livesRemaining = 1 \<rparr>,
      \<lparr> name = ''Gerald'', age = 7, livesRemaining = 8 \<rparr>]"

definition shuffledNumbers :: "int list" where
  "shuffledNumbers = [- 11, - 13, 2, 0, 45, 1, 8, 2, 100, - 1]"


section \<open>Vocabulary of the properties\<close>

text \<open>
  The calls an element-by-element comparison makes when it walks a list of pairs in
  order and stops at the first pair that is not equal: every pair up to and including
  that one, or all pairs when there is none.
\<close>

definition calls_upto_mismatch ::
  "('a \<Rightarrow> 'a \<Rightarrow> bool) \<Rightarrow> ('a \<times> 'a) list \<Rightarrow> ('a \<times> 'a) list" where
  "calls_upto_mismatch eq ps = take (Suc (length (takeWhile (\<lambda>(a, b). eq a b) ps))) ps"


section \<open>Properties of Nullable\<close>

lemma Nullable_map_calls_fst: "fst (Nullable_map_calls f n) = Nullable_map f n"
  by (cases n) (simp_all add: Nullable_map_calls_def Nullable_map_def)

lemma Nullable_bind_calls_fst: "fst (Nullable_bind_calls f n) = Nullable_bind f n"
  by (cases n) (simp_all add: Nullable_bind_calls_def Nullable_bind_def)

text \<open>
  Claim C6. For every base comparer, the comparer of \<open>Nullable_getEqualityComparer\<close>
  answers true on two nullish arguments in each of the four combinations of \<open>Null\<close>
  and \<open>Undefined\<close>, false when exactly one argument is nullish, and the base comparer's
  answer on two non-nullish arguments.
\<close>

theorem Nullable_getEqualityComparer_spec:
  "equals (Nullable_getEqualityComparer base) Null Null
   \<and> equals (Nullable_getEqualityComparer base) Null Undefined
   \<and> equals (Nullable_getEqualityComparer base) Undefined Null
   \<and> equals (Nullable_getEqualityComparer base) Undefined Undefined
   \<and> equals (Nullable_getEqualityComparer base) Null (NonNullish y) = False
   \<and> equals (Nullable_getEqualityComparer base) Undefined (NonNullish y) = False
   \<and> equals (Nullable_getEqualityComparer base) (NonNullish x) Null = False
   \<and> equals (Nullable_getEqualityComparer base) (NonNullish x) Undefined = False
   \<and> equals (Nullable_getEqualityComparer base) (NonNullish x) (NonNullish y)
       = equals base x y"
  by (simp add: Nullable_getEqualityComparer_def ofEquals_def)

text \<open>
  Claim C9. On a nullish input \<open>Nullable_map f\<close> and \<open>Nullable_bind g\<close> return that
  same nullish value (\<open>Null\<close> for \<open>Null\<close>, \<open>Undefined\<close> for \<open>Undefined\<close>), and
  neither function is invoked: the list of recorded calls is empty.
\<close>

theorem Nullable_map_bind_nullish:
  "Nullable_map f Null = Null
   \<and> Nullable_map f Undefined = Undefined
   \<and> Nullable_bind g Null = Null
   \<and> Nullable_bind g Undefined = Undefined
   \<and> Nullable_map_calls f Null = (Null, [])
   \<and> Nullable_map_calls f Undefined = (Undefined, [])
   \<and> Nullable_bind_calls g Null = (Null, [])
   \<and> Nullable_bind_calls g Undefined = (Undefined, [])"
  by (simp add: Nullable_map_def Nullable_bind_def Nullable_map_calls_def
      Nullable_bind_calls_def)


section \<open>Properties of OrderingComparer\<close>

lemma ordering_lawsD:
  assumes "ordering_laws oc"
  shows "compare oc x x = 0"
    and "sgn (compare oc a b) = - sgn (compare oc b a)"
    and "compare oc a b \<le> 0 \<Longrightarrow> compare oc b c \<le> 0 \<Longrightarrow> compare oc a c \<le> 0"
proof -
  from assms have r: "compare_refl oc" and s: "compare_antisym oc" and t: "compare_trans oc"
    unfolding ordering_laws_def by blast+
  from r show "compare oc x x = 0" unfolding compare_refl_def by blast
  from s show "sgn (compare oc a b) = - sgn (compare oc b a)"
    unfolding compare_antisym_def by blast
  assume "compare oc a b \<le> 0" "compare oc b c \<le> 0"
  with t show "compare oc a c \<le> 0" unfolding compare_trans_def by blast
qed

lemma ordering_lawsI:
  assumes "\<And>x. compare oc x x = 0"
    and "\<And>a b. sgn (compare oc a b) = - sgn (compare oc b a)"
    and "\<And>a b c. compare oc a b \<le> 0 \<Longrightarrow> compare oc b c \<le> 0 \<Longrightarrow> compare oc a c \<le> 0"
  shows "ordering_laws oc"
  unfolding ordering_laws_def compare_refl_def compare_antisym_def compare_trans_def
  using assms by blast

text \<open>What antisymmetry of the sign says about two results of opposite direction.\<close>

lemma sgn_flip:
  fixes u v :: int
  assumes "sgn u = - sgn v"
  shows "(u = 0) = (v = 0)" and "(u < 0) = (0 < v)" and "(0 < u) = (v < 0)"
    and "(u \<le> 0) = (0 \<le> v)" and "(0 \<le> u) = (v \<le> 0)"
  using assms by (auto simp: sgn_if split: if_splits)

text \<open>
  Under the three laws the strict part of the order and the ties are transitive too;
  the lexicographic combination needs both.
\<close>

lemma compare_strict_trans:
  assumes l: "ordering_laws oc"
    and ab: "compare oc a b \<le> 0" and bc: "compare oc b c \<le> 0"
    and strict: "compare oc a b < 0 \<or> compare oc b c < 0"
  shows "compare oc a c < 0"
proof (rule ccontr)
  assume "\<not> compare oc a c < 0"
  then have "0 \<le> compare oc a c" by simp
  then have ca: "compare oc c a \<le> 0"
    using sgn_flip(5)[OF ordering_lawsD(2)[OF l, of a c]] by simp
  from strict show False
  proof
    assume "compare oc a b < 0"
    then have "0 < compare oc b a"
      using sgn_flip(2)[OF ordering_lawsD(2)[OF l, of a b]] by simp
    moreover have "compare oc b a \<le> 0" by (rule ordering_lawsD(3)[OF l bc ca])
    ultimately show False by simp
  next
    assume "compare oc b c < 0"
    then have "0 < compare oc c b"
      using sgn_flip(2)[OF ordering_lawsD(2)[OF l, of b c]] by simp
    moreover have "compare oc c b \<le> 0" by (rule ordering_lawsD(3)[OF l ca ab])
    ultimately show False by simp
  qed
qed

lemma compare_tie_trans:
  assumes l: "ordering_laws oc"
    and ab: "compare oc a b = 0" and bc: "compare oc b c = 0"
  shows "compare oc a c = 0"
proof -
  have le: "compare oc a c \<le> 0" using ordering_lawsD(3)[OF l, of a b c] ab bc by simp
  have "compare oc c b = 0"
    using sgn_flip(1)[OF ordering_lawsD(2)[OF l, of b c]] bc by simp
  moreover have "compare oc b a = 0"
    using sgn_flip(1)[OF ordering_lawsD(2)[OF l, of a b]] ab by simp
  ultimately have "compare oc c a \<le> 0" using ordering_lawsD(3)[OF l, of c b a] by simp
  then have "0 \<le> compare oc a c"
    using sgn_flip(5)[OF ordering_lawsD(2)[OF l, of a c]] by simp
  with le show ?thesis by simp
qed

subsection \<open>reverse\<close>

lemma compare_reverse: "compare (OrderingComparer_reverse oc) a b = - compare oc a b"
  by (simp add: OrderingComparer_reverse_def ofCompare_def)

lemma reverse_laws:
  assumes l: "ordering_laws oc"
  shows "ordering_laws (OrderingComparer_reverse oc)"
proof (rule ordering_lawsI)
  fix x show "compare (OrderingComparer_reverse oc) x x = 0"
    by (simp add: compare_reverse ordering_lawsD(1)[OF l])
next
  fix a b
  show "sgn (compare (OrderingComparer_reverse oc) a b)
         = - sgn (compare (OrderingComparer_reverse oc) b a)"
    by (simp add: compare_reverse ordering_lawsD(2)[OF l, of a b])
next
  fix a b c
  assume "compare (OrderingComparer_reverse oc) a b \<le> 0"
    and "compare (OrderingComparer_reverse oc) b c \<le> 0"
  then have ab: "0 \<le> compare oc a b" and bc: "0 \<le> compare oc b c"
    by (simp_all add: compare_reverse)
  from ab have ba: "compare oc b a \<le> 0"
    using sgn_flip(5)[OF ordering_lawsD(2)[OF l, of a b]] by simp
  from bc have cb: "compare oc c b \<le> 0"
    using sgn_flip(5)[OF ordering_lawsD(2)[OF l, of b c]] by simp
  have "compare oc c a \<le> 0" by (rule ordering_lawsD(3)[OF l cb ba])
  then have "0 \<le> compare oc a c"
    using sgn_flip(5)[OF ordering_lawsD(2)[OF l, of a c]] by simp
  then show "compare (OrderingComparer_reverse oc) a c \<le> 0"
    by (simp add: compare_reverse)
qed

subsection \<open>deriveFrom\<close>

lemma compare_deriveFrom:
  "compare (deriveFrom inner keyFn) a b = compare inner (keyFn a) (keyFn b)"
  by (simp add: deriveFrom_def ofCompare_def)

lemma deriveFrom_laws:
  assumes l: "ordering_laws inner"
  shows "ordering_laws (deriveFrom inner keyFn)"
proof (rule ordering_lawsI)
  fix x show "compare (deriveFrom inner keyFn) x x = 0"
    by (simp add: compare_deriveFrom ordering_lawsD(1)[OF l])
next
  fix a b
  show "sgn (compare (deriveFrom inner keyFn) a b) = - sgn (compare (deriveFrom inner keyFn) b a)"
    by (simp add: compare_deriveFrom ordering_lawsD(2)[OF l, of "keyFn a" "keyFn b"])
next
  fix a b c
  assume "compare (deriveFrom inner keyFn) a b \<le> 0"
    and "compare (deriveFrom inner keyFn) b c \<le> 0"
  then have "compare inner (keyFn a) (keyFn b) \<le> 0" "compare inner (keyFn b) (keyFn c) \<le> 0"
    by (simp_all add: compare_deriveFrom)
  then have "compare inner (keyFn a) (keyFn c) \<le> 0" by (rule ordering_lawsD(3)[OF l])
  then show "compare (deriveFrom inner keyFn) a c \<le> 0"
    by (simp add: compare_deriveFrom)
qed

subsection \<open>getComposite\<close>

lemma compare_getComposite: "compare (getComposite cs) a b = getComposite_compare cs a b"
  by (simp add: getComposite_def ofCompare_def)

lemma getComposite_compare_Cons:
  "getComposite_compare (k # ks) a b =
     (if compare k a b \<noteq> 0 then compare k a b else getComposite_compare ks a b)"
  by (simp add: Let_def)

lemma getComposite_compare_find:
  "getComposite_compare cs a b =
     (case find (\<lambda>c. compare c a b \<noteq> 0) cs of Some c \<Rightarrow> compare c a b | None \<Rightarrow> 0)"
  by (induction cs) (simp_all add: Let_def)

lemma getComposite_compare_refl:
  assumes "\<forall>c \<in> set cs. ordering_laws c"
  shows "getComposite_compare cs x x = 0"
  using assms
proof (induction cs)
  case Nil
  show ?case by simp
next
  case (Cons k ks)
  then have "compare k x x = 0" using ordering_lawsD(1)[of k x] by simp
  with Cons show ?case by (simp add: getComposite_compare_Cons)
qed

lemma getComposite_compare_antisym:
  assumes "\<forall>c \<in> set cs. ordering_laws c"
  shows "sgn (getComposite_compare cs a b) = - sgn (getComposite_compare cs b a)"
  using assms
proof (induction cs)
  case Nil
  show ?case by simp
next
  case (Cons k ks)
  then have l: "ordering_laws k" by simp
  have s: "sgn (compare k a b) = - sgn (compare k b a)" by (rule ordering_lawsD(2)[OF l])
  have z: "(compare k a b = 0) = (compare k b a = 0)" by (rule sgn_flip(1)[OF s])
  from Cons have ih: "sgn (getComposite_compare ks a b) = - sgn (getComposite_compare ks b a)"
    by simp
  show ?case
  proof (cases "compare k a b = 0")
    case True
    with z ih show ?thesis by (simp add: getComposite_compare_Cons)
  next
    case False
    with z s show ?thesis by (simp add: getComposite_compare_Cons)
  qed
qed

lemma getComposite_compare_trans:
  assumes "\<forall>c \<in> set cs. ordering_laws c"
    and "getComposite_compare cs a b \<le> 0"
    and "getComposite_compare cs b c \<le> 0"
  shows "getComposite_compare cs a c \<le> 0"
  using assms
proof (induction cs)
  case Nil
  show ?case by simp
next
  case (Cons k ks)
  then have l: "ordering_laws k" and ls: "\<forall>c\<in>set ks. ordering_laws c" by simp_all
  from Cons.prems(2) have ab: "compare k a b \<le> 0"
    by (cases "compare k a b = 0") (simp_all add: getComposite_compare_Cons)
  from Cons.prems(3) have bc: "compare k b c \<le> 0"
    by (cases "compare k b c = 0") (simp_all add: getComposite_compare_Cons)
  show ?case
  proof (cases "compare k a b = 0 \<and> compare k b c = 0")
    case True
    then have "compare k a c = 0" using compare_tie_trans[OF l] by blast
    moreover from True Cons.prems have "getComposite_compare ks a b \<le> 0"
      "getComposite_compare ks b c \<le> 0" by (simp_all add: getComposite_compare_Cons)
    then have "getComposite_compare ks a c \<le> 0" using Cons.IH[OF ls] by blast
    ultimately show ?thesis by (simp add: getComposite_compare_Cons)
  next
    case False
    with ab bc have "compare k a b < 0 \<or> compare k b c < 0" by linarith
    then have "compare k a c < 0" by (rule compare_strict_trans[OF l ab bc])
    then show ?thesis by (simp add: getComposite_compare_Cons)
  qed
qed

lemma getComposite_laws:
  assumes "\<forall>c \<in> set cs. ordering_laws c"
  shows "ordering_laws (getComposite cs)"
proof (rule ordering_lawsI)
  fix x show "compare (getComposite cs) x x = 0"
    by (simp add: compare_getComposite getComposite_compare_refl[OF assms])
next
  fix a b
  show "sgn (compare (getComposite cs) a b) = - sgn (compare (getComposite cs) b a)"
    by (simp add: compare_getComposite getComposite_compare_antisym[OF assms, of a b])
next
  fix a b c
  assume "compare (getComposite cs) a b \<le> 0" and "compare (getComposite cs) b c \<le> 0"
  then have "getComposite_compare cs a b \<le> 0" "getComposite_compare cs b c \<le> 0"
    by (simp_all add: compare_getComposite)
  then have "getComposite_compare cs a c \<le> 0" by (rule getComposite_compare_trans[OF assms])
  then show "compare (getComposite cs) a c \<le> 0"
    by (simp add: compare_getComposite)
qed

subsection \<open>The canonical instances satisfy the laws\<close>

lemma Number_laws: "ordering_laws OrderingComparer_Number"
  unfolding ordering_laws_def compare_refl_def compare_antisym_def compare_trans_def
  by (auto simp: OrderingComparer_Number_def ofCompare_def split: if_splits)

lemma String_compare_refl: "String_compare x x = 0"
  by (induction x) simp_all

lemma String_compare_antisym: "sgn (String_compare x y) = - sgn (String_compare y x)"
  by (induction x y rule: String_compare.induct) simp_all

lemma String_compare_trans:
  "String_compare a b \<le> 0 \<Longrightarrow> String_compare b c \<le> 0 \<Longrightarrow> String_compare a c \<le> 0"
proof (induction a arbitrary: b c)
  case Nil
  then show ?case by (cases c) simp_all
next
  case (Cons x xs)
  from Cons.prems(1) obtain y ys where b: "b = y # ys" by (cases b) simp_all
  from Cons.prems(2) b obtain z zs where c: "c = z # zs" by (cases c) simp_all
  from Cons.prems(1) b have xy: "(of_char x :: nat) \<le> of_char y"
    by (simp split: if_splits)
  from Cons.prems(2) b c have yz: "(of_char y :: nat) \<le> of_char z"
    by (simp split: if_splits)
  show ?case
  proof (cases "(of_char x :: nat) < of_char z")
    case True
    then show ?thesis by (simp add: c)
  next
    case False
    with xy yz have "(of_char x :: nat) = of_char y" "(of_char y :: nat) = of_char z"
      by linarith+
    then have e: "x = y" "y = z" by simp_all
    with Cons.prems b c have "String_compare xs ys \<le> 0" "String_compare ys zs \<le> 0"
      by simp_all
    then have "String_compare xs zs \<le> 0" by (rule Cons.IH)
    with e show ?thesis by (simp add: c)
  qed
qed

lemma String_laws: "ordering_laws OrderingComparer_String"
proof (rule ordering_lawsI)
  fix x show "compare OrderingComparer_String x x = 0"
    by (simp add: OrderingComparer_String_def ofCompare_def String_compare_refl)
next
  fix a b
  show "sgn (compare OrderingComparer_String a b) = - sgn (compare OrderingComparer_String b a)"
    by (simp add: OrderingComparer_String_def ofCompare_def String_compare_antisym[of a b])
next
  fix a b c
  assume "compare OrderingComparer_String a b \<le> 0" and "compare OrderingComparer_String b c \<le> 0"
  then have "String_compare a b \<le> 0" "String_compare b c \<le> 0"
    by (simp_all add: OrderingComparer_String_def ofCompare_def)
  then have "String_compare a c \<le> 0" by (rule String_compare_trans)
  then show "compare OrderingComparer_String a c \<le> 0"
    by (simp add: OrderingComparer_String_def ofCompare_def)
qed

text \<open>
  Claim C1. Every comparer that satisfies the three laws (\<open>compare(x,x) = 0\<close>,
  antisymmetry of the sign, transitivity of the induced order) is taken by each
  combinator of the module to a comparer that satisfies them again: \<open>reverse\<close> of a
  lawful comparer, \<open>deriveFrom\<close> of a lawful inner comparer with any key function, and
  \<open>getComposite\<close> of any list of lawful comparers are lawful.
\<close>

theorem combinators_preserve_ordering_laws:
  "(ordering_laws oc \<longrightarrow> ordering_laws (OrderingComparer_reverse oc))
   \<and> (ordering_laws inner \<longrightarrow> ordering_laws (deriveFrom inner keyFn))
   \<and> ((\<forall>c \<in> set comparers. ordering_laws c) \<longrightarrow> ordering_laws (getComposite comparers))"
  using reverse_laws deriveFrom_laws getComposite_laws by blast

text \<open>
  The comparers of the test suite are an instance: the numeric and string comparers are
  lawful, hence so are the three derived comparers and their composite.
\<close>

theorem combinators_preserve_ordering_laws_witness:
  "ordering_laws OrderingComparer_Number
   \<and> ordering_laws OrderingComparer_String
   \<and> ordering_laws (OrderingComparer_reverse OrderingComparer_Number)
   \<and> ordering_laws byName
   \<and> ordering_laws byAge
   \<and> ordering_laws byLivesRemainingDesc
   \<and> ordering_laws (getComposite [byName, byAge, byLivesRemainingDesc])"
proof -
  note n = Number_laws and s = String_laws
  have r: "ordering_laws (OrderingComparer_reverse OrderingComparer_Number)"
    using combinators_preserve_ordering_laws[of OrderingComparer_Number] n by blast
  have bn: "ordering_laws byName"
    unfolding byName_def
    using combinators_preserve_ordering_laws[of _ OrderingComparer_String] s by blast
  have ba: "ordering_laws byAge"
    unfolding byAge_def
    using combinators_preserve_ordering_laws[of _ OrderingComparer_Number] n by blast
  have bl: "ordering_laws byLivesRemainingDesc"
    unfolding byLivesRemainingDesc_def
    using combinators_preserve_ordering_laws
      [of _ "OrderingComparer_reverse OrderingComparer_Number"] r
    by blast
  have "\<forall>c \<in> set [byName, byAge, byLivesRemainingDesc]. ordering_laws c"
    using bn ba bl by simp
  then have "ordering_laws (getComposite [byName, byAge, byLivesRemainingDesc])"
    using combinators_preserve_ordering_laws[of _ _ _ "[byName, byAge, byLivesRemainingDesc]"]
    by blast
  with n s r bn ba bl show ?thesis by blast
qed

text \<open>
  Claim C2. For every list of comparers and every pair \<open>(a, b)\<close>, the composite returns
  the result of the first comparer of the list, in order, whose result on \<open>(a, b)\<close> is
  not zero, and zero when there is none; and sorting the six cats of the example with
  \<open>getComposite [byName, byAge, byLivesRemainingDesc]\<close> gives Arnold(1,9), Gerald(5,9),
  Gerald(5,7), Gerald(7,8), Rufus(10,3), Rufus(10,1).
\<close>

theorem getComposite_first_nonzero:
  "compare (getComposite comparers) a b =
     (case find (\<lambda>c. compare c a b \<noteq> 0) comparers of
        Some c \<Rightarrow> compare c a b
      | None \<Rightarrow> 0)
   \<and> Array_sort (compare (getComposite [byName, byAge, byLivesRemainingDesc])) shuffledCats =
     [\<lparr> name = ''Arnold'', age = 1, livesRemaining = 9 \<rparr>,
      \<lparr> name = ''Gerald'', age = 5, livesRemaining = 9 \<rparr>,
      \<lparr> name = ''Gerald'', age = 5, livesRemaining = 7 \<rparr>,
      \<lparr> name = ''Gerald'', age = 7, livesRemaining = 8 \<rparr>,
      \<lparr> name = ''Rufus'', age = 10, livesRemaining = 3 \<rparr>,
      \<lparr> name = ''Rufus'', age = 10, livesRemaining = 1 \<rparr>]"
proof
  show "compare (getComposite comparers) a b =
     (case find (\<lambda>c. compare c a b \<noteq> 0) comparers of
        Some c \<Rightarrow> compare c a b
      | None \<Rightarrow> 0)"
    by (simp only: compare_getComposite getComposite_compare_find)
next
  show "Array_sort (compare (getComposite [byName, byAge, byLivesRemainingDesc])) shuffledCats =
     [\<lparr> name = ''Arnold'', age = 1, livesRemaining = 9 \<rparr>,
      \<lparr> name = ''Gerald'', age = 5, livesRemaining = 9 \<rparr>,
      \<lparr> name = ''Gerald'', age = 5, livesRemaining = 7 \<rparr>,
      \<lparr> name = ''Gerald'', age = 7, livesRemaining = 8 \<rparr>,
      \<lparr> name = ''Rufus'', age = 10, livesRemaining = 3 \<rparr>,
      \<lparr> name = ''Rufus'', age = 10, livesRemaining = 1 \<rparr>]"
    by (simp add: Array_sort_def shuffledCats_def getComposite_def ofCompare_def byName_def
        byAge_def byLivesRemainingDesc_def deriveFrom_def OrderingComparer_String_def
        OrderingComparer_Number_def OrderingComparer_reverse_def)
qed

text \<open>
  Claim C3. For every comparer \<open>oc\<close> and all \<open>a\<close>, \<open>b\<close>, the reversed comparer returns
  the negation of what \<open>oc\<close> returns, and therefore zero exactly when \<open>oc\<close> returns zero;
  and sorting \<open>[-11,-13,2,0,45,1,8,2,100,-1]\<close> with the reversed numeric comparer gives
  \<open>[100,45,8,2,2,1,0,-1,-11,-13]\<close>, the mirror image of the ascending result.
\<close>

theorem OrderingComparer_reverse_negates:
  "compare (OrderingComparer_reverse oc) a b = - compare oc a b
   \<and> (compare (OrderingComparer_reverse oc) a b = 0) = (compare oc a b = 0)
   \<and> Array_sort (compare (OrderingComparer_reverse OrderingComparer_Number)) shuffledNumbers
       = [100, 45, 8, 2, 2, 1, 0, - 1, - 11, - 13]
   \<and> Array_sort (compare OrderingComparer_Number) shuffledNumbers
       = [- 13, - 11, - 1, 0, 1, 2, 2, 8, 45, 100]
   \<and> Array_sort (compare (OrderingComparer_reverse OrderingComparer_Number)) shuffledNumbers
       = rev (Array_sort (compare OrderingComparer_Number) shuffledNumbers)"
  by (simp add: compare_reverse Array_sort_def shuffledNumbers_def ofCompare_def
      OrderingComparer_Number_def)

text \<open>
  Claim C4. For every inner comparer, key function and outer values \<open>a\<close>, \<open>b\<close>, the
  derived comparer returns what the inner comparer returns on the two keys.
\<close>

theorem deriveFrom_compare:
  "compare (deriveFrom innerComparer keyFn) a b = compare innerComparer (keyFn a) (keyFn b)"
  by (simp add: deriveFrom_def ofCompare_def)


section \<open>Properties of the host sort\<close>

text \<open>
  \<open>Array_sort\<close> rearranges its input, and the result is ordered by the comparison
  function whenever that function satisfies the laws.
\<close>

lemma mset_insertBy: "mset (insertBy f x ys) = add_mset x (mset ys)"
  by (induction ys) simp_all

lemma mset_Array_sort: "mset (Array_sort f xs) = mset xs"
  by (induction xs) (simp_all add: Array_sort_def mset_insertBy)

lemma set_insertBy: "set (insertBy f x ys) = insert x (set ys)"
  by (induction ys) auto

lemma sorted_insertBy:
  assumes t: "\<And>a b c. f a b \<le> 0 \<Longrightarrow> f b c \<le> 0 \<Longrightarrow> f a c \<le> 0"
    and a: "\<And>a b. sgn (f a b) = - sgn (f b a)"
    and s: "sorted_wrt (\<lambda>a b. f a b \<le> 0) ys"
  shows "sorted_wrt (\<lambda>a b. f a b \<le> 0) (insertBy f x ys)"
  using s
proof (induction ys)
  case Nil
  show ?case by simp
next
  case (Cons y ys)
  then have ys: "sorted_wrt (\<lambda>a b. f a b \<le> 0) ys" and y: "\<forall>z\<in>set ys. f y z \<le> 0"
    by simp_all
  show ?case
  proof (cases "f x y \<le> 0")
    case True
    have "\<forall>z\<in>set ys. f x z \<le> 0"
    proof
      fix z assume "z \<in> set ys"
      with y have "f y z \<le> 0" by blast
      with True show "f x z \<le> 0" by (rule t)
    qed
    with True Cons.prems show ?thesis by simp
  next
    case False
    have "sgn (f x y) = - sgn (f y x)" by (rule a)
    with False have yx: "f y x \<le> 0" by (auto simp: sgn_if split: if_splits)
    have "sorted_wrt (\<lambda>a b. f a b \<le> 0) (insertBy f x ys)" by (rule Cons.IH[OF ys])
    with False yx y show ?thesis by (simp add: set_insertBy)
  qed
qed

lemma sorted_Array_sort:
  assumes l: "ordering_laws (ofCompare f)"
  shows "sorted_wrt (\<lambda>a b. f a b \<le> 0) (Array_sort f xs)"
proof (induction xs)
  case Nil
  show ?case by (simp add: Array_sort_def)
next
  case (Cons x xs)
  have c: "compare (ofCompare f) = f" by (simp add: ofCompare_def)
  from l have "compare_trans (ofCompare f)" and "compare_antisym (ofCompare f)"
    unfolding ordering_laws_def by blast+
  then have t: "\<And>a b c. f a b \<le> 0 \<Longrightarrow> f b c \<le> 0 \<Longrightarrow> f a c \<le> 0"
    and a: "\<And>a b. sgn (f a b) = - sgn (f b a)"
    unfolding compare_trans_def compare_antisym_def c by blast+
  have "sorted_wrt (\<lambda>a b. f a b \<le> 0) (insertBy f x (Array_sort f xs))"
    using t a Cons.IH by (rule sorted_insertBy)
  then show ?case by (simp add: Array_sort_def)
qed


section \<open>Properties of NonEmptyArray\<close>

subsection \<open>getEqualityComparer\<close>

lemma getEqualityComparer_loop_all2:
  "length arr1 = length arr2 \<Longrightarrow> i \<le> length arr1 \<Longrightarrow>
   getEqualityComparer_loop eq arr1 arr2 i = list_all2 eq (drop i arr1) (drop i arr2)"
proof (induction eq arr1 arr2 i rule: getEqualityComparer_loop.induct)
  case (1 eq arr1 arr2 i)
  show ?case
  proof (cases "i < length arr1")
    case False
    with "1.prems" show ?thesis by (subst getEqualityComparer_loop.simps) simp
  next
    case True
    with "1.prems" have d1: "drop i arr1 = arr1 ! i # drop (Suc i) arr1"
      and d2: "drop i arr2 = arr2 ! i # drop (Suc i) arr2"
      by (simp_all add: Cons_nth_drop_Suc)
    show ?thesis
    proof (cases "eq (arr1 ! i) (arr2 ! i)")
      case False
      with True d1 d2 show ?thesis by (subst getEqualityComparer_loop.simps) simp
    next
      case eqi: True
      with True "1.prems" have
        "getEqualityComparer_loop eq arr1 arr2 (i + 1)
           = list_all2 eq (drop (i + 1) arr1) (drop (i + 1) arr2)"
        by (intro "1.IH") simp_all
      with True eqi d1 d2 show ?thesis by (subst getEqualityComparer_loop.simps) simp
    qed
  qed
qed

lemma NonEmptyArray_equals_all2:
  "NonEmptyArray_equals eq arr1 arr2 = list_all2 eq arr1 arr2"
  by (auto simp: NonEmptyArray_equals_def getEqualityComparer_loop_all2 dest: list_all2_lengthD)

lemma NonEmptyArray_equals_nth:
  "NonEmptyArray_equals eq arr1 arr2 \<longleftrightarrow>
     length arr1 = length arr2 \<and> (\<forall>i < length arr1. eq (arr1 ! i) (arr2 ! i))"
  by (simp add: NonEmptyArray_equals_all2 list_all2_conv_all_nth)

lemma calls_upto_mismatch_Cons:
  "calls_upto_mismatch eq (p # ps) =
     (if eq (fst p) (snd p) then p # calls_upto_mismatch eq ps else [p])"
  by (cases p) (simp add: calls_upto_mismatch_def)

lemma getEqualityComparer_loop_calls_eq:
  "length arr1 = length arr2 \<Longrightarrow> i \<le> length arr1 \<Longrightarrow>
   getEqualityComparer_loop_calls eq arr1 arr2 i calls =
     (getEqualityComparer_loop eq arr1 arr2 i,
      calls @ calls_upto_mismatch eq (drop i (zip arr1 arr2)))"
proof (induction eq arr1 arr2 i calls rule: getEqualityComparer_loop_calls.induct)
  case (1 eq arr1 arr2 i calls)
  show ?case
  proof (cases "i < length arr1")
    case False
    with "1.prems" show ?thesis
      by (subst getEqualityComparer_loop_calls.simps, subst getEqualityComparer_loop.simps)
         (simp add: calls_upto_mismatch_def)
  next
    case True
    with "1.prems" have d:
      "drop i (zip arr1 arr2) = (arr1 ! i, arr2 ! i) # drop (Suc i) (zip arr1 arr2)"
      by (simp add: Cons_nth_drop_Suc[symmetric])
    show ?thesis
    proof (cases "eq (arr1 ! i) (arr2 ! i)")
      case False
      with True d show ?thesis
        by (subst getEqualityComparer_loop_calls.simps, subst getEqualityComparer_loop.simps)
           (simp add: calls_upto_mismatch_Cons)
    next
      case eqi: True
      with True "1.prems" have
        "getEqualityComparer_loop_calls eq arr1 arr2 (i + 1) (calls @ [(arr1 ! i, arr2 ! i)])
           = (getEqualityComparer_loop eq arr1 arr2 (i + 1),
              (calls @ [(arr1 ! i, arr2 ! i)])
                @ calls_upto_mismatch eq (drop (i + 1) (zip arr1 arr2)))"
        by (intro "1.IH") simp_all
      with True eqi d show ?thesis
        by (subst getEqualityComparer_loop_calls.simps, subst getEqualityComparer_loop.simps)
           (simp add: calls_upto_mismatch_Cons)
    qed
  qed
qed

lemma NonEmptyArray_equals_calls_eq:
  "NonEmptyArray_equals_calls eq arr1 arr2 =
     (NonEmptyArray_equals eq arr1 arr2,
      if length arr1 \<noteq> length arr2 then [] else calls_upto_mismatch eq (zip arr1 arr2))"
  by (simp add: NonEmptyArray_equals_calls_def NonEmptyArray_equals_def
      getEqualityComparer_loop_calls_eq)

text \<open>
  Claim C5. For every element comparer and every two arrays, the comparer of
  \<open>NonEmptyArray_getEqualityComparer\<close> answers true exactly when the arrays have the
  same length and all their elements are pairwise equal under the element comparer
  (so false when the lengths differ and false when some index holds unequal elements).
  It calls the element comparer on no pair when the lengths differ, and otherwise on
  the pairs in index order up to the first unequal pair and no further.
  \<open>[1,2,3]\<close> against \<open>[1,2]\<close> is false, against \<open>[1,3,2]\<close> false, against \<open>[1,2,3]\<close> true.
\<close>

theorem NonEmptyArray_getEqualityComparer_spec:
  "equals (NonEmptyArray_getEqualityComparer ec) arr1 arr2 =
     (length arr1 = length arr2 \<and> list_all2 (equals ec) arr1 arr2)
   \<and> NonEmptyArray_equals_calls (equals ec) arr1 arr2 =
     (equals (NonEmptyArray_getEqualityComparer ec) arr1 arr2,
      if length arr1 \<noteq> length arr2 then []
      else calls_upto_mismatch (equals ec) (zip arr1 arr2))
   \<and> equals (NonEmptyArray_getEqualityComparer EqualityComparer_Number) [1, 2, 3] [1, 2] = False
   \<and> equals (NonEmptyArray_getEqualityComparer EqualityComparer_Number) [1, 2, 3] [1, 3, 2] = False
   \<and> equals (NonEmptyArray_getEqualityComparer EqualityComparer_Number) [1, 2, 3] [1, 2, 3] = True"
proof -
  have e: "equals (NonEmptyArray_getEqualityComparer c) xs ys = NonEmptyArray_equals (equals c) xs ys"
    for c :: "'b EqualityComparer" and xs ys
    by (simp add: NonEmptyArray_getEqualityComparer_def ofEquals_def)
  have "equals (NonEmptyArray_getEqualityComparer ec) arr1 arr2 =
     (length arr1 = length arr2 \<and> list_all2 (equals ec) arr1 arr2)"
    by (auto simp: e NonEmptyArray_equals_all2 dest: list_all2_lengthD)
  moreover have "NonEmptyArray_equals_calls (equals ec) arr1 arr2 =
     (equals (NonEmptyArray_getEqualityComparer ec) arr1 arr2,
      if length arr1 \<noteq> length arr2 then []
      else calls_upto_mismatch (equals ec) (zip arr1 arr2))"
    by (simp only: e NonEmptyArray_equals_calls_eq)
  moreover have
    "equals (NonEmptyArray_getEqualityComparer EqualityComparer_Number) [1, 2, 3] [1, 2] = False"
    "equals (NonEmptyArray_getEqualityComparer EqualityComparer_Number) [1, 2, 3] [1, 3, 2] = False"
    "equals (NonEmptyArray_getEqualityComparer EqualityComparer_Number) [1, 2, 3] [1, 2, 3] = True"
    by (simp_all add: NonEmptyArray_getEqualityComparer_def ofEquals_def
        EqualityComparer_Number_def NonEmptyArray_equals_def getEqualityComparer_loop.simps)
  ultimately show ?thesis by blast
qed

subsection \<open>sort and reverse\<close>

text \<open>
  What the two functions return: a new array holding the rearranged contents (the
  contents \<open>Array_sort\<close> computes are the host's for a lawful comparer).
\<close>

lemma NonEmptyArray_reverse_result:
  "NonEmptyArray_reverse s as = (s @ [rev (s ! as)], length s)"
  by (simp add: NonEmptyArray_reverse_def Array_slice_def Array_reverse_inplace_def)

lemma NonEmptyArray_sort_result:
  "NonEmptyArray_sort Default orderingComparer s as =
     (s @ [Array_sort (compare (case orderingComparer of None \<Rightarrow> Default | Some c \<Rightarrow> c)) (s ! as)],
      length s)"
  by (simp add: NonEmptyArray_sort_def Array_slice_def Array_sort_inplace_def)

text \<open>
  Claim C10. Neither \<open>NonEmptyArray_sort\<close> (with any comparer, given or defaulted) nor
  \<open>NonEmptyArray_reverse\<close> changes its input: for every allocated array \<open>as\<close>, the
  returned reference is a new one, different from \<open>as\<close> and from every array that
  existed before the call, and after the call \<open>as\<close> and every other array that existed
  before hold the elements they held before, in the same order.
\<close>

theorem NonEmptyArray_sort_reverse_frame:
  assumes "as < length s"
  shows "(case NonEmptyArray_reverse s as of
            (s', r) \<Rightarrow> r \<noteq> as \<and> length s \<le> r \<and> s' ! as = s ! as \<and> take (length s) s' = s)
       \<and> (case NonEmptyArray_sort Default orderingComparer s as of
            (s', r) \<Rightarrow> r \<noteq> as \<and> length s \<le> r \<and> s' ! as = s ! as \<and> take (length s) s' = s)"
  using assms
  by (simp add: NonEmptyArray_reverse_result NonEmptyArray_sort_result nth_append)

theorem NonEmptyArray_sort_reverse_frame_witness:
  "(0::nat) < length [[4, 8, - 1, - 5, 0 :: int]]
   \<and> NonEmptyArray_reverse [[4, 8, - 1, - 5, 0 :: int]] 0
       = ([[4, 8, - 1, - 5, 0], [0, - 5, - 1, 8, 4]], 1)
   \<and> NonEmptyArray_sort OrderingComparer_Number None [[4, 8, - 1, - 5, 0]] 0
       = ([[4, 8, - 1, - 5, 0], [- 5, - 1, 0, 4, 8]], 1)
   \<and> (case NonEmptyArray_reverse [[4, 8, - 1, - 5, 0 :: int]] 0 of
        (s', r) \<Rightarrow> r \<noteq> 0 \<and> length [[4, 8, - 1, - 5, 0 :: int]] \<le> r
          \<and> s' ! 0 = [[4, 8, - 1, - 5, 0]] ! 0
          \<and> take (length [[4, 8, - 1, - 5, 0 :: int]]) s' = [[4, 8, - 1, - 5, 0]])
   \<and> (case NonEmptyArray_sort OrderingComparer_Number None [[4, 8, - 1, - 5, 0]] 0 of
        (s', r) \<Rightarrow> r \<noteq> 0 \<and> length [[4, 8, - 1, - 5, 0 :: int]] \<le> r
          \<and> s' ! 0 = [[4, 8, - 1, - 5, 0]] ! 0
          \<and> take (length [[4, 8, - 1, - 5, 0 :: int]]) s' = [[4, 8, - 1, - 5, 0]])"
proof -
  have h: "(0::nat) < length [[4, 8, - 1, - 5, 0 :: int]]" by simp
  have r: "NonEmptyArray_reverse [[4, 8, - 1, - 5, 0 :: int]] 0
       = ([[4, 8, - 1, - 5, 0], [0, - 5, - 1, 8, 4]], 1)"
    by (simp add: NonEmptyArray_reverse_def Array_slice_def Array_reverse_inplace_def)
  have t: "NonEmptyArray_sort OrderingComparer_Number None [[4, 8, - 1, - 5, 0]] 0
       = ([[4, 8, - 1, - 5, 0], [- 5, - 1, 0, 4, 8]], 1)"
    by (simp add: NonEmptyArray_sort_def Array_slice_def Array_sort_inplace_def Array_sort_def
        OrderingComparer_Number_def ofCompare_def)
  from h r t
    NonEmptyArray_sort_reverse_frame[OF h, of OrderingComparer_Number None]
  show ?thesis by blast
qed

subsection \<open>range\<close>

text \<open>Where the loop variable stays an exact integer, and that it stays finite.\<close>

lemma number_increment_exact:
  assumes "- (2 ^ 53) \<le> i" and "i < 2 ^ 53"
  shows "number_increment (Num (of_int i)) = Num (of_int (i + 1))"
  using assms by simp

lemma number_increment_stuck:
  "number_increment (Num (2 ^ 53)) = Num (2 ^ 53)"
proof -
  have f: "\<lfloor>(2::real) ^ 53\<rfloor> = 2 ^ 53"
    by (metis floor_of_int of_int_numeral of_int_power)
  show ?thesis by (simp add: f)
qed

lemma number_increment_finite: "\<exists>r'. number_increment (Num r) = Num r'"
  by simp

text \<open>
  The rounding of \<^verbatim>\<open>i++\<close> at some integers: \<open>2 ^ 53 - 1\<close> and \<open>- 2 ^ 53\<close> are still
  incremented exactly, \<open>2 ^ 53 + 2\<close> goes to \<open>2 ^ 53 + 4\<close>, which stays where it is,
  \<open>2 ^ 54 - 2\<close> goes to \<open>2 ^ 54\<close>, which stays where it is, and \<open>- 2 ^ 53 - 2\<close> goes to
  \<open>- 2 ^ 53\<close>.
\<close>

lemma number_increment_examples:
  "number_increment (Num 9007199254740991) = Num 9007199254740992"
  "number_increment (Num (- 9007199254740992)) = Num (- 9007199254740991)"
  "number_increment (Num 9007199254740992) = Num 9007199254740992"
  "number_increment (Num 9007199254740994) = Num 9007199254740996"
  "number_increment (Num 9007199254740996) = Num 9007199254740996"
  "number_increment (Num 18014398509481982) = Num 18014398509481984"
  "number_increment (Num 18014398509481984) = Num 18014398509481984"
  "number_increment (Num (- 9007199254740994)) = Num (- 9007199254740992)"
  by simp_all

text \<open>
  On finite numbers whose floors lie from \<open>- 2 ^ 53\<close> below \<open>2 ^ 53\<close> the loop ends, and
  it appends the integers from \<open>i\<close> to the bound.
\<close>

lemma range_loop_finite:
  assumes "- (2 ^ 53) \<le> i" and "e < 2 ^ 53"
  shows "range_loop (Num (of_int i)) (Num (of_int e)) out
     = Some (out @ map (\<lambda>k. Num (of_int k)) [i..e])"
  using assms
proof (induction "nat (e - i + 1)" arbitrary: i out)
  case 0
  then have "e < i" by simp
  then show ?case by (subst range_loop.simps) simp
next
  case (Suc n)
  then have le: "i \<le> e" by simp
  from Suc have n: "n = nat (e - (i + 1) + 1)" by simp
  from Suc.prems have lo: "- (2 ^ 53) \<le> i + 1" by simp
  from le Suc.prems have hi: "i < 2 ^ 53" by simp
  have inc: "number_increment (Num (of_int i)) = Num (of_int (i + 1))"
    using Suc.prems(1) hi by (rule number_increment_exact)
  have step: "range_loop (Num (of_int (i + 1))) (Num (of_int e)) (out @ [Num (of_int i)])
     = Some ((out @ [Num (of_int i)]) @ map (\<lambda>k. Num (of_int k)) [i + 1..e])"
    using n lo Suc.prems(2) by (rule Suc.hyps(1))
  have up: "[i..e] = i # [i + 1..e]" using le by (simp add: upto_rec1)
  have "range_loop (Num (of_int i)) (Num (of_int e)) out
          = range_loop (number_increment (Num (of_int i))) (Num (of_int e))
              (out @ [Num (of_int i)])"
    using le by (subst range_loop.simps) simp
  also have "\<dots> = Some ((out @ [Num (of_int i)]) @ map (\<lambda>k. Num (of_int k)) [i + 1..e])"
    by (simp only: inc step)
  also have "\<dots> = Some (out @ map (\<lambda>k. Num (of_int k)) [i..e])"
    by (simp add: up)
  finally show ?case .
qed

lemma NonEmptyArray_range_finite:
  assumes "- (2 ^ 53) \<le> \<lfloor>a\<rfloor>" and "\<lfloor>b\<rfloor> < 2 ^ 53" and "\<lfloor>b\<rfloor> - \<lfloor>a\<rfloor> < 2 ^ 32 - 1"
  shows "NonEmptyArray_range (Num a) (Num b) =
     Some (if \<lfloor>a\<rfloor> \<ge> \<lfloor>b\<rfloor> then [Num (of_int \<lfloor>a\<rfloor>)]
           else map (\<lambda>k. Num (of_int k)) [\<lfloor>a\<rfloor>..\<lfloor>b\<rfloor>])"
  using range_loop_finite[OF assms(1,2), of "[]"]
  by (simp add: NonEmptyArray_range_def number_geq_def)

lemma NonEmptyArray_range_finite_nonempty:
  assumes "- (2 ^ 53) \<le> \<lfloor>a\<rfloor>" and "\<lfloor>b\<rfloor> < 2 ^ 53" and "\<lfloor>b\<rfloor> - \<lfloor>a\<rfloor> < 2 ^ 32 - 1"
  shows "\<exists>out. NonEmptyArray_range (Num a) (Num b) = Some out \<and> out \<noteq> []"
  by (simp add: NonEmptyArray_range_finite[OF assms])

text \<open>The rows of the test of \<^verbatim>\<open>range\<close>.\<close>

lemma NonEmptyArray_range_examples:
  "NonEmptyArray_range (Num 1) (Num 5) = Some [Num 1, Num 2, Num 3, Num 4, Num 5]"
  "NonEmptyArray_range (Num (- 3)) (Num 1) = Some [Num (- 3), Num (- 2), Num (- 1), Num 0, Num 1]"
  "NonEmptyArray_range (Num 0) (Num 0) = Some [Num 0]"
  "NonEmptyArray_range (Num 1) (Num (- 20)) = Some [Num 1]"
  "NonEmptyArray_range (Num 4.1142) (Num 11.0034)
     = Some [Num 4, Num 5, Num 6, Num 7, Num 8, Num 9, Num 10, Num 11]"
  by (simp_all add: NonEmptyArray_range_finite upto_rec1)

text \<open>
  With a finite start and an infinite end the loop test never fails, and the call hands
  no array back.
\<close>

lemma range_loop_PosInfinity:
  assumes "range_loop i e out = Some y"
  shows "\<not> (e = PosInfinity \<and> (\<exists>r. i = Num r))"
proof (rule range_loop.raw_induct
    [where P = "\<lambda>i e out y. \<not> (e = PosInfinity \<and> (\<exists>r. i = Num r))", OF _ assms])
  fix f :: "number \<Rightarrow> number \<Rightarrow> number list \<Rightarrow> number list option"
  fix i e out y
  assume IH: "\<And>i e out y. f i e out = Some y \<Longrightarrow> \<not> (e = PosInfinity \<and> (\<exists>r. i = Num r))"
    and eq: "(if number_leq i e then f (number_increment i) e (out @ [i]) else Some out) = Some y"
  show "\<not> (e = PosInfinity \<and> (\<exists>r. i = Num r))"
  proof
    assume "e = PosInfinity \<and> (\<exists>r. i = Num r)"
    then obtain r where e: "e = PosInfinity" and i: "i = Num r" by blast
    obtain r' where r': "number_increment (Num r) = Num r'"
      using number_increment_finite by blast
    from eq e i have "f (number_increment (Num r)) PosInfinity (out @ [Num r]) = Some y"
      by (simp del: number_increment.simps)
    then have "f (Num r') PosInfinity (out @ [Num r]) = Some y" by (simp only: r')
    then have "\<not> (PosInfinity = PosInfinity \<and> (\<exists>r''. Num r' = Num r''))" by (rule IH)
    then show False by blast
  qed
qed

lemma NonEmptyArray_range_PosInfinity: "NonEmptyArray_range (Num a) PosInfinity = None"
proof (cases "NonEmptyArray_range (Num a) PosInfinity")
  case None
  then show ?thesis .
next
  case (Some y)
  then have "range_loop (Num (of_int \<lfloor>a\<rfloor>)) PosInfinity [] = Some y"
    by (simp add: NonEmptyArray_range_def number_geq_def)
  from range_loop_PosInfinity[OF this] show ?thesis by blast
qed

text \<open>
  At \<open>2 ^ 53\<close> the loop variable stops growing: \<^verbatim>\<open>range(9007199254740991, 9007199254740992)\<close>
  appends \<open>2 ^ 53\<close> again and again, and the call hands no array back.
\<close>

lemma range_loop_stuck:
  assumes "range_loop i e out = Some y"
  shows "\<not> (e = Num (2 ^ 53) \<and> i = Num (2 ^ 53))"
proof (rule range_loop.raw_induct
    [where P = "\<lambda>i e out y. \<not> (e = Num (2 ^ 53) \<and> i = Num (2 ^ 53))", OF _ assms])
  fix f :: "number \<Rightarrow> number \<Rightarrow> number list \<Rightarrow> number list option"
  fix i e out y
  assume IH: "\<And>i e out y. f i e out = Some y \<Longrightarrow> \<not> (e = Num (2 ^ 53) \<and> i = Num (2 ^ 53))"
    and eq: "(if number_leq i e then f (number_increment i) e (out @ [i]) else Some out) = Some y"
  show "\<not> (e = Num (2 ^ 53) \<and> i = Num (2 ^ 53))"
  proof
    assume "e = Num (2 ^ 53) \<and> i = Num (2 ^ 53)"
    then have e: "e = Num (2 ^ 53)" and i: "i = Num (2 ^ 53)" by blast+
    from eq e i have
      "f (number_increment (Num (2 ^ 53))) (Num (2 ^ 53)) (out @ [Num (2 ^ 53)]) = Some y"
      by (simp del: number_increment.simps)
    then have "f (Num (2 ^ 53)) (Num (2 ^ 53)) (out @ [Num (2 ^ 53)]) = Some y"
      by (simp only: number_increment_stuck)
    then have "\<not> (Num (2 ^ 53) = Num (2 ^ 53) \<and> Num (2 ^ 53) = Num (2 ^ 53))" by (rule IH)
    then show False by blast
  qed
qed

lemma NonEmptyArray_range_stuck:
  "NonEmptyArray_range (Num (2 ^ 53 - 1)) (Num (2 ^ 53)) = None"
proof (cases "NonEmptyArray_range (Num (2 ^ 53 - 1)) (Num (2 ^ 53))")
  case None
  then show ?thesis .
next
  case (Some y)
  have fa: "\<lfloor>(2::real) ^ 53 - 1\<rfloor> = 2 ^ 53 - 1"
    by (metis floor_of_int of_int_1 of_int_diff of_int_numeral of_int_power)
  have fb: "\<lfloor>(2::real) ^ 53\<rfloor> = 2 ^ 53"
    by (metis floor_of_int of_int_numeral of_int_power)
  have inc: "number_increment (Num (2 ^ 53 - 1)) = Num (2 ^ 53)"
    using number_increment_exact[of "2 ^ 53 - 1"] by simp
  from Some have "range_loop (Num (2 ^ 53 - 1)) (Num (2 ^ 53)) [] = Some y"
    by (simp add: NonEmptyArray_range_def number_geq_def fa fb)
  then have "range_loop (number_increment (Num (2 ^ 53 - 1))) (Num (2 ^ 53)) [Num (2 ^ 53 - 1)]
      = Some y"
    by (subst (asm) range_loop.simps) (simp del: number_increment.simps)
  then have "range_loop (Num (2 ^ 53)) (Num (2 ^ 53)) [Num (2 ^ 53 - 1)] = Some y"
    by (simp only: inc)
  from range_loop_stuck[OF this] show ?thesis by blast
qed

text \<open>
  Claim C8. The claim is that for every pair of numbers \<open>NonEmptyArray_range\<close> returns a
  non-empty array, the singleton of the floored start or the integers between the two
  floors. \<open>NonEmptyArray_range_finite\<close> shows this for finite numbers whose floors lie
  from \<open>- 2 ^ 53\<close> below \<open>2 ^ 53\<close>. It fails on \<^verbatim>\<open>NaN\<close>: as soon as one argument is
  \<^verbatim>\<open>NaN\<close> both comparisons of the source are false, the loop body never runs, and the
  array returned as a \<^verbatim>\<open>NonEmptyArray\<close> is empty.
\<close>

theorem NonEmptyArray_range_NaN_empty:
  "NonEmptyArray_range NaN NaN = Some []
   \<and> NonEmptyArray_range (Num 1) NaN = Some []
   \<and> NonEmptyArray_range NaN (Num 5) = Some []"
  by (simp add: NonEmptyArray_range_def number_geq_def range_loop.simps)


section \<open>Properties of Deferred\<close>




section \<open>The comparer parameter of the operations\<close>








end
